theory Spec2Isabelle
  imports Complex_Main "HOL-Library.AList"
begin

section \<open>rate-gate: a sliding-window rate limiter over a pluggable backend\<close>

text \<open>
  The development embeds \<^verbatim>\<open>src/rate-gate.ts\<close>. Timestamps, \<^verbatim>\<open>limit\<close> and
  \<^verbatim>\<open>windowMs\<close> are JavaScript numbers holding integers (\<^verbatim>\<open>Date.now()\<close> yields
  epoch milliseconds); they are modelled as \<open>int\<close>. Integer arithmetic is the arithmetic
  of the doubles as long as operands and results are safe integers (of magnitude below
  \<open>2 ^ 53\<close>); beyond that a double rounds and the model does not, so what is proved about
  the value of \<^verbatim>\<open>resetIn\<close> is stated within \<open>reset_exact\<close> below.
  The clock is not part of the state: every operation takes
  the value that its call of \<^verbatim>\<open>Date.now()\<close> returns as the argument \<open>now\<close>.
  Each \<^verbatim>\<open>await\<close> is modelled as the sequential call it wraps.
\<close>

subsection \<open>Numbers that may be NaN\<close>

text \<open>
  \<^verbatim>\<open>validTimestamps[0]\<close> of an empty array is \<^verbatim>\<open>undefined\<close>, and arithmetic on it
  gives \<^verbatim>\<open>NaN\<close>. The field \<^verbatim>\<open>resetIn\<close> of the error can therefore hold it.
\<close>

datatype number = Num int | NaN

definition digit_char :: "nat \<Rightarrow> char" where
  "digit_char d = ''0123456789'' ! d"

function show_nat :: "nat \<Rightarrow> string" where
  "show_nat n = (if n < 10 then [digit_char n] else show_nat (n div 10) @ [digit_char (n mod 10)])"
  by pat_completeness auto
termination
  by (relation "measure id") auto

declare show_nat.simps [simp del]

text \<open>The text a template literal inserts for a number (integers in the safe range).\<close>

definition show_number :: "number \<Rightarrow> string" where
  "show_number x =
     (case x of
        NaN \<Rightarrow> ''NaN''
      | Num i \<Rightarrow> (if i < 0 then ''-'' @ show_nat (nat (- i)) else show_nat (nat i)))"

text \<open>\<^verbatim>\<open>Math.ceil(x / d)\<close> for an integer \<open>x\<close> and a positive integer \<open>d\<close>.\<close>

definition ceil_div :: "int \<Rightarrow> int \<Rightarrow> int" where
  "ceil_div x d = - ((- x) div d)"

subsection \<open>Options, the error, the backend\<close>

record RateGateOptions =
  opt_limit :: int
  opt_windowMs :: "int option"
  opt_category :: "string option"

record RateLimitError =
  err_message :: string
  err_name :: string
  err_resetIn :: number
  err_limit :: int
  err_windowMs :: int

definition new_RateLimitError :: "string \<Rightarrow> number \<Rightarrow> int \<Rightarrow> int \<Rightarrow> RateLimitError" where
  "new_RateLimitError message r l w =
     \<lparr>err_message = message, err_name = ''RateLimitError'',
      err_resetIn = r, err_limit = l, err_windowMs = w\<rparr>"

text \<open>
  \<^verbatim>\<open>MemoryBackend\<close> keeps a \<^verbatim>\<open>Map<string, number[]>\<close>. A JavaScript map iterates in
  insertion order, and \<^verbatim>\<open>set\<close> on a present key keeps its place: an association list
  with \<open>AList.update\<close> and \<open>AList.delete\<close>. The field \<open>calls\<close> is a log of the
  methods invoked on the backend, in order; it is what "performs no write" is stated
  against.
\<close>

datatype backend_call =
  CallGet string | CallSet string "int list" | CallDelete string | CallKeys

record MemoryBackend =
  store :: "(string \<times> int list) list"
  calls :: "backend_call list"

definition new_MemoryBackend :: MemoryBackend where
  "new_MemoryBackend = \<lparr>store = [], calls = []\<rparr>"

definition backend_get :: "string \<Rightarrow> MemoryBackend \<Rightarrow> int list \<times> MemoryBackend" where
  "backend_get key b =
     ((case map_of (store b) key of None \<Rightarrow> [] | Some ts \<Rightarrow> ts),
      b\<lparr>calls := calls b @ [CallGet key]\<rparr>)"

definition backend_set :: "string \<Rightarrow> int list \<Rightarrow> MemoryBackend \<Rightarrow> MemoryBackend" where
  "backend_set key timestamps b =
     b\<lparr>store := AList.update key timestamps (store b),
       calls := calls b @ [CallSet key timestamps]\<rparr>"

definition backend_delete :: "string \<Rightarrow> MemoryBackend \<Rightarrow> MemoryBackend" where
  "backend_delete key b =
     b\<lparr>store := AList.delete key (store b), calls := calls b @ [CallDelete key]\<rparr>"

definition backend_keys :: "MemoryBackend \<Rightarrow> string list \<times> MemoryBackend" where
  "backend_keys b = (map fst (store b), b\<lparr>calls := calls b @ [CallKeys]\<rparr>)"

subsection \<open>The gate\<close>

record RateGate =
  limit :: int
  windowMs :: int
  category :: string

definition new_RateGate :: "RateGateOptions \<Rightarrow> RateGate" where
  "new_RateGate options =
     \<lparr>limit = opt_limit options,
      windowMs = (case opt_windowMs options of None \<Rightarrow> 60000 | Some w \<Rightarrow> w),
      category = (case opt_category options of None \<Rightarrow> ''rate-limit'' | Some c \<Rightarrow> c)\<rparr>"

text \<open>
  In \<open>hit\<close> and \<open>resetIn\<close> the expression \<^verbatim>\<open>oldestTimestamp + windowMs - now\<close> is
  integer arithmetic. It is the code's double arithmetic within \<open>reset_exact\<close>
  (defined with the vocabulary below); the prune, the comparison with \<open>limit\<close> and the
  write-back do not depend on it.
\<close>

definition check :: "RateGate \<Rightarrow> int \<Rightarrow> string \<Rightarrow> MemoryBackend \<Rightarrow> bool \<times> MemoryBackend" where
  "check g now key b =
     (let windowStart = now - windowMs g;
          (timestamps, b1) = backend_get key b;
          validTimestamps = filter (\<lambda>ts. ts > windowStart) timestamps
      in (int (length validTimestamps) < limit g, b1))"

definition hit ::
  "RateGate \<Rightarrow> int \<Rightarrow> string \<Rightarrow> MemoryBackend \<Rightarrow> (RateLimitError + unit) \<times> MemoryBackend" where
  "hit g now key b =
     (let windowStart = now - windowMs g;
          (timestamps, b1) = backend_get key b;
          validTimestamps = filter (\<lambda>ts. ts > windowStart) timestamps
      in if int (length validTimestamps) \<ge> limit g then
           (let r = (case validTimestamps of
                       [] \<Rightarrow> NaN
                     | oldestTimestamp # _ \<Rightarrow>
                         Num (ceil_div (oldestTimestamp + windowMs g - now) 1000))
            in (Inl (new_RateLimitError
                      (''Rate limit exceeded for '' @ category g @ ''. Try again in ''
                         @ show_number r @ ''s.'')
                      r (limit g) (windowMs g)),
                b1))
         else (Inr (), backend_set key (validTimestamps @ [now]) b1))"

definition resetIn :: "RateGate \<Rightarrow> int \<Rightarrow> string \<Rightarrow> MemoryBackend \<Rightarrow> int \<times> MemoryBackend" where
  "resetIn g now key b =
     (let windowStart = now - windowMs g;
          (timestamps, b1) = backend_get key b;
          validTimestamps = filter (\<lambda>ts. ts > windowStart) timestamps
      in case validTimestamps of
           [] \<Rightarrow> (0, b1)
         | oldestTimestamp # _ \<Rightarrow>
             (let resetMs = oldestTimestamp + windowMs g - now
              in (max 0 (ceil_div resetMs 1000), b1)))"

definition remaining :: "RateGate \<Rightarrow> int \<Rightarrow> string \<Rightarrow> MemoryBackend \<Rightarrow> int \<times> MemoryBackend" where
  "remaining g now key b =
     (let windowStart = now - windowMs g;
          (timestamps, b1) = backend_get key b;
          validTimestamps = filter (\<lambda>ts. ts > windowStart) timestamps
      in (max 0 (limit g - int (length validTimestamps)), b1))"

text \<open>The body of the loop of \<^verbatim>\<open>cleanup\<close>, for one key.\<close>

definition cleanup_key :: "int \<Rightarrow> string \<Rightarrow> MemoryBackend \<Rightarrow> MemoryBackend" where
  "cleanup_key windowStart key b =
     (let (timestamps, b1) = backend_get key b;
          validTimestamps = filter (\<lambda>ts. ts > windowStart) timestamps
      in if length validTimestamps = 0 then backend_delete key b1
         else if length validTimestamps < length timestamps
           then backend_set key validTimestamps b1
         else b1)"

definition cleanup :: "RateGate \<Rightarrow> int \<Rightarrow> MemoryBackend \<Rightarrow> MemoryBackend" where
  "cleanup g now b =
     (let windowStart = now - windowMs g;
          (allKeys, b1) = backend_keys b
      in fold (cleanup_key windowStart) allKeys b1)"

definition createRateGate :: "RateGateOptions \<Rightarrow> RateGate \<times> MemoryBackend" where
  "createRateGate options = (new_RateGate options, new_MemoryBackend)"

subsection \<open>Vocabulary of the properties\<close>

text \<open>The sequence stored under a key, as \<^verbatim>\<open>get\<close> reports it.\<close>

definition stored :: "MemoryBackend \<Rightarrow> string \<Rightarrow> int list" where
  "stored b key = fst (backend_get key b)"

text \<open>The prune step: the timestamps strictly after the start of the window.\<close>

definition valid_timestamps :: "RateGate \<Rightarrow> int \<Rightarrow> int list \<Rightarrow> int list" where
  "valid_timestamps g now timestamps = filter (\<lambda>ts. ts > now - windowMs g) timestamps"

text \<open>
  A caller that calls \<^verbatim>\<open>hit\<close> on one key at the instants of a list, catching each
  error: the outcomes in order, and the backend afterwards.
\<close>

fun hits ::
  "RateGate \<Rightarrow> string \<Rightarrow> int list \<Rightarrow> MemoryBackend \<Rightarrow> (RateLimitError + unit) list \<times> MemoryBackend" where
  "hits g key [] b = ([], b)"
| "hits g key (t # ts) b =
     (let (r, b1) = hit g t key b;
          (rs, b2) = hits g key ts b1
      in (r # rs, b2))"

text \<open>
  Instants that lie within one window of each other: none is at or before the window
  start of another.
\<close>

definition within_window :: "int \<Rightarrow> int list \<Rightarrow> bool" where
  "within_window w ts = (\<forall>a\<in>set ts. \<forall>b\<in>set ts. a < b + w)"

text \<open>
  The error \<^verbatim>\<open>hit\<close> throws, as a function of the valid timestamps it found.
\<close>

definition failure :: "RateGate \<Rightarrow> int \<Rightarrow> int list \<Rightarrow> RateLimitError" where
  "failure g now v =
     (let r = (case v of [] \<Rightarrow> NaN | oldest # _ \<Rightarrow> Num (ceil_div (oldest + windowMs g - now) 1000))
      in new_RateLimitError
           (''Rate limit exceeded for '' @ category g @ ''. Try again in '' @ show_number r @ ''s.'')
           r (limit g) (windowMs g))"

text \<open>A gate used in the examples: two requests a second.\<close>

abbreviation demo_gate :: RateGate where
  "demo_gate \<equiv> \<lparr>limit = 2, windowMs = 1000, category = ''api''\<rparr>"

text \<open>A backend used in the examples, and one holding a timestamp on the window start.\<close>

abbreviation demo_backend :: MemoryBackend where
  "demo_backend \<equiv> \<lparr>store = [(''user1'', [100, 900, 1500]), (''user2'', [200])], calls = []\<rparr>"


text \<open>What a sweep at \<open>now\<close> leaves of the entry of a key in the map.\<close>

definition expire :: "RateGate \<Rightarrow> int \<Rightarrow> int list option \<Rightarrow> int list option" where
  "expire g now entry =
     (case entry of
        None \<Rightarrow> None
      | Some ts \<Rightarrow>
          if valid_timestamps g now ts = [] then None else Some (valid_timestamps g now ts))"

text \<open>The invariant on sizes: no stored sequence is longer than \<open>limit\<close>.\<close>

definition within_limit :: "RateGate \<Rightarrow> MemoryBackend \<Rightarrow> bool" where
  "within_limit g b = (\<forall>(k, ts)\<in>set (store b). int (length ts) \<le> limit g)"

text \<open>
  \<^verbatim>\<open>Number.isSafeInteger\<close>: the integers that a double holds exactly together with
  their neighbours.
\<close>

definition safe_integer :: "int \<Rightarrow> bool" where
  "safe_integer x \<longleftrightarrow> - 9007199254740991 \<le> x \<and> x \<le> 9007199254740991"

text \<open>
  The range on which \<^verbatim>\<open>Math.ceil((oldestTimestamp + windowMs - now) / 1000)\<close> is
  computed without rounding: the three operands, the sum \<open>oldestTimestamp + windowMs\<close>
  (the code adds first) and its difference with \<open>now\<close> are safe integers. There the
  double sum and difference are the integer ones. The quotient by 1000 is then below
  \<open>2 ^ 44\<close>, where doubles are at most \<open>2 ^ -9\<close> apart; a quotient that is not an integer
  lies at least \<open>1 / 1000\<close> from the next integer, more than half that spacing, so the
  rounded quotient has the ceiling of the exact one. Outside this range the code
  rounds, already in the sum, and can return one more than the exact ceiling.
\<close>

definition reset_exact :: "RateGate \<Rightarrow> int \<Rightarrow> int \<Rightarrow> bool" where
  "reset_exact g now oldest \<longleftrightarrow>
     safe_integer oldest \<and> safe_integer (windowMs g) \<and> safe_integer now \<and>
     safe_integer (oldest + windowMs g) \<and> safe_integer (oldest + windowMs g - now)"

section \<open>Basic facts\<close>

lemma ceil_div_ceiling: "ceil_div x 1000 = \<lceil>real_of_int x / 1000\<rceil>"
proof -
  have "\<lceil>real_of_int x / real_of_int 1000\<rceil> = - (- x div 1000)"
    by (rule ceiling_divide_eq_div)
  then show ?thesis by (simp add: ceil_div_def)
qed

text \<open>
  With \<open>windowMs\<close> at the largest safe integer and a present-day clock the sum
  \<open>oldest + windowMs\<close> leaves the range. There the code returns 9007199254741, one more
  than the exact ceiling 9007199254740, and nothing is stated about the value.
\<close>

lemma reset_exact_excludes_rounded_sum:
  "\<not> reset_exact \<lparr>limit = 1, windowMs = 9007199254740991, category = ''api''\<rparr>
       1762166400991 1762166400000"
  by (simp add: reset_exact_def safe_integer_def)

lemma ceil_div_pos: "0 < x \<Longrightarrow> 0 < ceil_div x 1000"
  unfolding ceil_div_def by linarith

lemma store_backend_get [simp]: "store (snd (backend_get key b)) = store b"
  by (simp add: backend_get_def)

lemma calls_backend_get [simp]: "calls (snd (backend_get key b)) = calls b @ [CallGet key]"
  by (simp add: backend_get_def)

lemma stored_backend_set:
  "stored (backend_set k v b) key = (if key = k then v else stored b key)"
  by (simp add: stored_def backend_get_def backend_set_def update_conv')

lemma valid_timestamps_idem [simp]:
  "valid_timestamps g now (valid_timestamps g now ts) = valid_timestamps g now ts"
  by (simp add: valid_timestamps_def)

lemma check_eq:
  "check g now key b =
     (int (length (valid_timestamps g now (stored b key))) < limit g, snd (backend_get key b))"
  by (simp add: check_def stored_def valid_timestamps_def backend_get_def)

lemma remaining_eq:
  "remaining g now key b =
     (max 0 (limit g - int (length (valid_timestamps g now (stored b key)))),
      snd (backend_get key b))"
  by (simp add: remaining_def stored_def valid_timestamps_def backend_get_def)

lemma resetIn_eq:
  "resetIn g now key b =
     ((case valid_timestamps g now (stored b key) of
         [] \<Rightarrow> 0
       | oldest # _ \<Rightarrow> max 0 (ceil_div (oldest + windowMs g - now) 1000)),
      snd (backend_get key b))"
  by (simp add: resetIn_def stored_def valid_timestamps_def backend_get_def split: list.splits)

lemma hit_eq:
  "hit g now key b =
     (if limit g \<le> int (length (valid_timestamps g now (stored b key)))
      then (Inl (failure g now (valid_timestamps g now (stored b key))), snd (backend_get key b))
      else (Inr (), backend_set key (valid_timestamps g now (stored b key) @ [now])
                      (snd (backend_get key b))))"
  by (simp add: hit_def stored_def valid_timestamps_def backend_get_def failure_def Let_def)

lemma stored_snd_backend_get [simp]: "stored (snd (backend_get k b)) key = stored b key"
  by (simp add: stored_def backend_get_def)

lemma valid_timestamps_all:
  "\<forall>t\<in>set ts. now < t + windowMs g \<Longrightarrow> valid_timestamps g now ts = ts"
  by (induction ts) (auto simp: valid_timestamps_def)

lemma valid_timestamps_append:
  "valid_timestamps g now (xs @ ys) = valid_timestamps g now xs @ valid_timestamps g now ys"
  by (simp add: valid_timestamps_def)

lemma within_window_subset:
  "within_window w ts \<Longrightarrow> set us \<subseteq> set ts \<Longrightarrow> within_window w us"
  by (auto simp: within_window_def)

lemma hits_fill:
  assumes "stored b key = q"
    and "within_window (windowMs g) (q @ ts)"
    and "int (length q) + int (length ts) \<le> limit g"
  shows "fst (hits g key ts b) = replicate (length ts) (Inr ()) \<and>
         stored (snd (hits g key ts b)) key = q @ ts"
  using assms
proof (induction ts arbitrary: b q)
  case Nil
  then show ?case by simp
next
  case (Cons t ts)
  have "\<forall>a\<in>set q. t < a + windowMs g"
    using Cons.prems(2) by (auto simp: within_window_def)
  then have v: "valid_timestamps g t (stored b key) = q"
    using Cons.prems(1) by (simp add: valid_timestamps_all)
  have lt: "\<not> limit g \<le> int (length q)"
    using Cons.prems(3) by simp
  let ?b1 = "backend_set key (q @ [t]) (snd (backend_get key b))"
  have h: "hit g t key b = (Inr (), ?b1)"
    using v lt by (simp add: hit_eq)
  have s1: "stored ?b1 key = q @ [t]"
    by (simp add: stored_backend_set)
  have w1: "within_window (windowMs g) ((q @ [t]) @ ts)"
    using Cons.prems(2) by simp
  have l1: "int (length (q @ [t])) + int (length ts) \<le> limit g"
    using Cons.prems(3) by simp
  from Cons.IH [OF s1 w1 l1] h show ?case
    by (simp add: split_beta)
qed

lemma hits_keep:
  assumes "stored b key = s @ q"
    and "within_window (windowMs g) (q @ ts @ [now])"
    and "fst (hits g key ts b) = replicate (length ts) (Inr ())"
  shows "\<exists>pre. valid_timestamps g now (stored (snd (hits g key ts b)) key) = pre @ q @ ts"
  using assms
proof (induction ts arbitrary: b s q)
  case Nil
  have "\<forall>a\<in>set q. now < a + windowMs g"
    using Nil.prems(2) by (auto simp: within_window_def)
  then have "valid_timestamps g now q = q"
    by (simp add: valid_timestamps_all)
  then show ?case
    using Nil.prems(1) by (simp add: valid_timestamps_append)
next
  case (Cons t ts)
  have "\<forall>a\<in>set q. t < a + windowMs g"
    using Cons.prems(2) by (auto simp: within_window_def)
  then have vq: "valid_timestamps g t q = q"
    by (simp add: valid_timestamps_all)
  let ?v = "valid_timestamps g t (stored b key)"
  let ?b1 = "backend_set key (?v @ [t]) (snd (backend_get key b))"
  have ok: "fst (hit g t key b) = Inr ()"
    using Cons.prems(3) by (simp add: split_beta)
  then have h: "hit g t key b = (Inr (), ?b1)"
    by (auto simp: hit_eq split: if_splits)
  have s1: "stored ?b1 key = valid_timestamps g t s @ (q @ [t])"
    using Cons.prems(1) vq by (simp add: stored_backend_set valid_timestamps_append)
  have w1: "within_window (windowMs g) ((q @ [t]) @ ts @ [now])"
    using Cons.prems(2) by simp
  have r1: "fst (hits g key ts ?b1) = replicate (length ts) (Inr ())"
    using Cons.prems(3) h by (simp add: split_beta)
  from Cons.IH [OF s1 w1 r1] h show ?case
    by (simp add: split_beta)
qed


lemma failure_simps [simp]:
  "err_limit (failure g now v) = limit g"
  "err_windowMs (failure g now v) = windowMs g"
  "err_name (failure g now v) = ''RateLimitError''"
  "err_resetIn (failure g now v) =
     (case v of [] \<Rightarrow> NaN | oldest # _ \<Rightarrow> Num (ceil_div (oldest + windowMs g - now) 1000))"
  "err_message (failure g now v) =
     ''Rate limit exceeded for '' @ category g @ ''. Try again in ''
       @ show_number (err_resetIn (failure g now v)) @ ''s.''"
  by (simp_all add: failure_def new_RateLimitError_def Let_def)

subsection \<open>The sweep\<close>

lemma expire_idem [simp]: "expire g now (expire g now entry) = expire g now entry"
  by (simp add: expire_def split: option.splits)

lemma filter_not_shorter:
  assumes "\<not> length (filter P xs) < length xs"
  shows "filter P xs = xs"
proof -
  have "length (filter P xs) + length (filter (\<lambda>x. \<not> P x) xs) = length xs"
    by (rule sum_length_filter_compl)
  with assms have "length (filter (\<lambda>x. \<not> P x) xs) = 0" by linarith
  then have "\<forall>x\<in>set xs. P x" by (simp add: filter_empty_conv)
  then show ?thesis by simp
qed

lemma cleanup_key_eq:
  "cleanup_key (now - windowMs g) key b =
     (if valid_timestamps g now (stored b key) = [] then
        backend_delete key (snd (backend_get key b))
      else if length (valid_timestamps g now (stored b key)) < length (stored b key) then
        backend_set key (valid_timestamps g now (stored b key)) (snd (backend_get key b))
      else snd (backend_get key b))"
  by (simp add: cleanup_key_def stored_def valid_timestamps_def backend_get_def)

lemma stored_map_of:
  "stored b key = (case map_of (store b) key of None \<Rightarrow> [] | Some ts \<Rightarrow> ts)"
  by (simp add: stored_def backend_get_def)

lemma cleanup_key_map_of:
  "map_of (store (cleanup_key (now - windowMs g) k b)) =
     (map_of (store b))(k := expire g now (map_of (store b) k))"
proof (cases "map_of (store b) k")
  case None
  then show ?thesis
    by (simp add: cleanup_key_eq stored_map_of expire_def valid_timestamps_def
        backend_delete_def delete_conv')
next
  case (Some ts)
  show ?thesis
  proof (cases "length (valid_timestamps g now ts) < length ts")
    case True
    with Some show ?thesis
      by (simp add: cleanup_key_eq stored_map_of expire_def backend_delete_def
          backend_set_def delete_conv' update_conv')
  next
    case False
    then have same: "valid_timestamps g now ts = ts"
      unfolding valid_timestamps_def by (rule filter_not_shorter)
    with Some show ?thesis
      by (auto simp: cleanup_key_eq stored_map_of expire_def backend_delete_def
          delete_conv')
  qed
qed

lemma fold_cleanup_key_map_of:
  "map_of (store (fold (cleanup_key (now - windowMs g)) ks b)) k =
     (if k \<in> set ks then expire g now (map_of (store b) k) else map_of (store b) k)"
proof (induction ks arbitrary: b)
  case Nil
  show ?case by simp
next
  case (Cons a ks)
  show ?case
    by (simp add: Cons.IH cleanup_key_map_of)
qed

lemma cleanup_map_of:
  "map_of (store (cleanup g now b)) k = expire g now (map_of (store b) k)"
proof -
  have c: "cleanup g now b =
      fold (cleanup_key (now - windowMs g)) (map fst (store b)) (snd (backend_keys b))"
    by (simp add: cleanup_def backend_keys_def)
  have s: "store (snd (backend_keys b)) = store b"
    by (simp add: backend_keys_def)
  show ?thesis
  proof (cases "k \<in> set (map fst (store b))")
    case True
    then show ?thesis by (simp add: c fold_cleanup_key_map_of s del: set_map)
  next
    case False
    then have "map_of (store b) k = None"
      by (simp add: map_of_eq_None_iff)
    with False show ?thesis
      by (simp add: c fold_cleanup_key_map_of s expire_def del: set_map)
  qed
qed

lemma stored_cleanup:
  "stored (cleanup g now b) key = valid_timestamps g now (stored b key)"
  by (simp add: stored_map_of cleanup_map_of expire_def valid_timestamps_def
      split: option.splits)

lemma keys_cleanup:
  "key \<in> set (fst (backend_keys (cleanup g now b))) \<longleftrightarrow>
     valid_timestamps g now (stored b key) \<noteq> []"
proof -
  have "key \<in> set (fst (backend_keys (cleanup g now b))) \<longleftrightarrow>
          map_of (store (cleanup g now b)) key \<noteq> None"
    by (simp add: backend_keys_def map_of_eq_None_iff)
  also have "\<dots> \<longleftrightarrow> valid_timestamps g now (stored b key) \<noteq> []"
    by (simp add: cleanup_map_of expire_def stored_map_of valid_timestamps_def
        split: option.splits)
  finally show ?thesis .
qed

subsection \<open>Other keys\<close>

lemma hit_other_key:
  "k2 \<noteq> k1 \<Longrightarrow> map_of (store (snd (hit g t k1 b))) k2 = map_of (store b) k2"
  by (simp add: hit_eq backend_set_def update_conv')

lemma hits_other_key:
  "k2 \<noteq> k1 \<Longrightarrow> map_of (store (snd (hits g k1 ts b))) k2 = map_of (store b) k2"
proof (induction ts arbitrary: b)
  case Nil
  show ?case by simp
next
  case (Cons t ts)
  from Cons.IH [OF Cons.prems, of "snd (hit g t k1 b)"] hit_other_key [OF Cons.prems, of g t b]
  show ?case by (simp add: split_beta)
qed

subsection \<open>Sizes of the stored sequences\<close>

lemma set_update_subset: "set (AList.update k v al) \<subseteq> insert (k, v) (set al)"
  by (induction al) auto

lemma set_delete_subset: "set (AList.delete k al) \<subseteq> set al"
  by (auto simp: AList.delete_eq)

lemma within_limit_backend_get [simp]:
  "within_limit g (snd (backend_get key b)) = within_limit g b"
  by (simp add: within_limit_def)

lemma within_limit_backend_set:
  assumes "within_limit g b" and "int (length v) \<le> limit g"
  shows "within_limit g (backend_set key v b)"
  using assms set_update_subset [of key v "store b"]
  by (auto simp: within_limit_def backend_set_def)

lemma within_limit_backend_delete:
  assumes "within_limit g b"
  shows "within_limit g (backend_delete key b)"
  using assms set_delete_subset [of key "store b"]
  by (auto simp: within_limit_def backend_delete_def)

lemma within_limit_stored:
  assumes "within_limit g b" and "stored b key \<noteq> []"
  shows "int (length (stored b key)) \<le> limit g"
proof (cases "map_of (store b) key")
  case None
  with assms(2) show ?thesis by (simp add: stored_map_of)
next
  case (Some ts)
  then have "(key, ts) \<in> set (store b)" by (rule map_of_SomeD)
  with assms(1) have "int (length ts) \<le> limit g"
    by (auto simp: within_limit_def)
  with Some show ?thesis by (simp add: stored_map_of)
qed

lemma length_valid_timestamps_le:
  "length (valid_timestamps g now ts) \<le> length ts"
  by (simp add: valid_timestamps_def)

lemma within_limit_hit:
  assumes "within_limit g b"
  shows "within_limit g (snd (hit g now key b))"
  using assms by (simp add: hit_eq within_limit_backend_set)

lemma within_limit_cleanup_key:
  assumes "within_limit g b"
  shows "within_limit g (cleanup_key (now - windowMs g) key b)"
proof (cases "valid_timestamps g now (stored b key) = []")
  case True
  with assms show ?thesis
    by (simp add: cleanup_key_eq within_limit_backend_delete)
next
  case False
  then have "stored b key \<noteq> []"
    by (auto simp: valid_timestamps_def)
  with assms have "int (length (stored b key)) \<le> limit g"
    by (rule within_limit_stored)
  moreover have "length (valid_timestamps g now (stored b key)) \<le> length (stored b key)"
    by (rule length_valid_timestamps_le)
  ultimately have "int (length (valid_timestamps g now (stored b key))) \<le> limit g"
    by linarith
  with assms False show ?thesis
    by (simp add: cleanup_key_eq within_limit_backend_set)
qed

lemma within_limit_fold_cleanup_key:
  "within_limit g b \<Longrightarrow> within_limit g (fold (cleanup_key (now - windowMs g)) ks b)"
  by (induction ks arbitrary: b) (simp_all add: within_limit_cleanup_key)

lemma within_limit_cleanup:
  assumes "within_limit g b"
  shows "within_limit g (cleanup g now b)"
proof -
  have "within_limit g (snd (backend_keys b))"
    using assms by (simp add: within_limit_def backend_keys_def)
  then show ?thesis
    by (simp add: cleanup_def backend_keys_def split_beta within_limit_fold_cleanup_key)
qed

section \<open>Recording hits\<close>

text \<open>
  C1. Starting from a key with no recorded timestamps, \<open>n \<le> limit\<close> consecutive calls of
  \<^verbatim>\<open>hit\<close> on that key at instants within one window all succeed; after the \<open>i\<close>-th
  of them the backend holds exactly the first \<open>i\<close> instants under the key, in order
  (each hit appended its instant to the valid timestamps and wrote them back); and
  \<^verbatim>\<open>remaining\<close>, asked within the same window, returns \<open>limit - n\<close>.
\<close>

theorem hits_within_limit:
  assumes "stored b key = []"
    and "int (length ts) \<le> limit g"
    and "within_window (windowMs g) (ts @ [now])"
  shows "fst (hits g key ts b) = replicate (length ts) (Inr ()) \<and>
         (\<forall>i\<le>length ts. stored (snd (hits g key (take i ts) b)) key = take i ts) \<and>
         fst (remaining g now key (snd (hits g key ts b))) = limit g - int (length ts)"
proof -
  have w: "within_window (windowMs g) ([] @ ts)"
    using assms(3) by (rule within_window_subset) auto
  have l: "int (length ([]::int list)) + int (length ts) \<le> limit g"
    using assms(2) by simp
  from hits_fill [OF assms(1) w l]
  have ok: "fst (hits g key ts b) = replicate (length ts) (Inr ())"
    and st: "stored (snd (hits g key ts b)) key = ts"
    by simp_all
  have pre: "stored (snd (hits g key (take i ts) b)) key = take i ts" for i
  proof -
    have wi: "within_window (windowMs g) ([] @ take i ts)"
      using assms(3) by (rule within_window_subset) (auto dest: in_set_takeD)
    have li: "int (length ([]::int list)) + int (length (take i ts)) \<le> limit g"
      using assms(2) by simp
    from hits_fill [OF assms(1) wi li] show ?thesis by simp
  qed
  have "\<forall>t\<in>set ts. now < t + windowMs g"
    using assms(3) by (auto simp: within_window_def)
  then have "valid_timestamps g now ts = ts"
    by (rule valid_timestamps_all)
  then have "fst (remaining g now key (snd (hits g key ts b))) = limit g - int (length ts)"
    using st assms(2) by (simp add: remaining_eq)
  with ok pre show ?thesis by simp
qed

theorem hits_within_limit_witness:
  "stored new_MemoryBackend ''user1'' = [] \<and>
   within_window (windowMs demo_gate) ([5, 6] @ [7]) \<and>
   fst (hits demo_gate ''user1'' [5, 6] new_MemoryBackend) = [Inr (), Inr ()] \<and>
   stored (snd (hits demo_gate ''user1'' [5, 6] new_MemoryBackend)) ''user1'' = [5, 6] \<and>
   fst (remaining demo_gate 7 ''user1'' (snd (hits demo_gate ''user1'' [5, 6] new_MemoryBackend))) = 0"
proof -
  have h1: "stored new_MemoryBackend ''user1'' = []"
    by (simp add: stored_def backend_get_def new_MemoryBackend_def)
  have h2: "int (length [5, 6 :: int]) \<le> limit demo_gate"
    by simp
  have h3: "within_window (windowMs demo_gate) ([5, 6] @ [7])"
    by (simp add: within_window_def)
  from hits_within_limit [OF h1 h2 h3] h1 h3 show ?thesis
    by (auto simp: numeral_2_eq_2 dest: spec [of _ 2])
qed

text \<open>
  C2. \<^verbatim>\<open>hit\<close> fails exactly when the number of valid timestamps at the current
  instant is at least \<open>limit\<close>. The error then carries the configured \<open>limit\<close> and
  \<open>windowMs\<close>, a message that names the configured category, and
  \<open>resetIn = \<lceil>(oldest + windowMs - now) / 1000\<rceil>\<close>, where \<open>oldest\<close> is the first element of
  the pruned sequence; the value of \<open>resetIn\<close> is stated where the code computes it
  without rounding (\<open>reset_exact\<close>). For a positive limit the pruned sequence of a
  failing hit is never empty (an empty one gives \<^verbatim>\<open>NaN\<close>, which needs \<open>limit \<le> 0\<close>).
\<close>

theorem hit_fails_iff_at_limit:
  "((\<exists>e. fst (hit g now key b) = Inl e) \<longleftrightarrow>
      limit g \<le> int (length (valid_timestamps g now (stored b key)))) \<and>
   (\<forall>e. fst (hit g now key b) = Inl e \<longrightarrow>
      (\<forall>oldest rest.
         valid_timestamps g now (stored b key) = oldest # rest \<longrightarrow>
         reset_exact g now oldest \<longrightarrow>
         err_resetIn e = Num \<lceil>real_of_int (oldest + windowMs g - now) / 1000\<rceil>) \<and>
      (valid_timestamps g now (stored b key) = [] \<longrightarrow> err_resetIn e = NaN) \<and>
      err_limit e = limit g \<and> err_windowMs e = windowMs g \<and>
      err_message e =
        ''Rate limit exceeded for '' @ category g @ ''. Try again in ''
          @ show_number (err_resetIn e) @ ''s.'' \<and>
      (0 < limit g \<longrightarrow> valid_timestamps g now (stored b key) \<noteq> []))"
  by (auto simp: hit_eq ceil_div_ceiling split: list.splits)

theorem hit_fails_iff_at_limit_witness:
  "reset_exact \<lparr>limit = 1, windowMs = 5000, category = ''api''\<rparr> 200 100 \<and>
   (\<exists>e. fst (hit \<lparr>limit = 1, windowMs = 5000, category = ''api''\<rparr> 200 ''user1''
              \<lparr>store = [(''user1'', [100])], calls = []\<rparr>) = Inl e \<and>
       err_resetIn e = Num 5 \<and> err_limit e = 1 \<and> err_windowMs e = 5000 \<and>
       err_message e = ''Rate limit exceeded for api. Try again in 5s.'')"
proof -
  let ?g = "\<lparr>limit = 1, windowMs = 5000, category = ''api''\<rparr>"
  let ?b = "\<lparr>store = [(''user1'', [100])], calls = []\<rparr>"
  have v: "valid_timestamps ?g 200 (stored ?b ''user1'') = [100]"
    by (simp add: valid_timestamps_def stored_def backend_get_def)
  have x: "reset_exact ?g 200 100"
    by (simp add: reset_exact_def safe_integer_def)
  have s: "show_number (Num 5) = ''5''"
    by (simp add: show_number_def show_nat.simps digit_char_def)
  from hit_fails_iff_at_limit [of ?g 200 "''user1''" ?b] x show ?thesis
    unfolding v by (auto simp: s)
qed

text \<open>
  C3. After \<open>limit\<close> successful hits on a key within one window (from any backend state,
  with \<open>limit\<close> positive), a further hit on the key within that window fails; the
  error's \<open>resetIn\<close> is an integer strictly greater than 0, and its \<open>limit\<close> and
  \<open>windowMs\<close> are the configured values.
\<close>

theorem hit_after_limit_fails:
  assumes "fst (hits g key ts b) = replicate (length ts) (Inr ())"
    and "int (length ts) = limit g"
    and "0 < limit g"
    and "within_window (windowMs g) (ts @ [now])"
  shows "\<exists>e. fst (hit g now key (snd (hits g key ts b))) = Inl e \<and>
           (\<exists>r. err_resetIn e = Num r \<and> 0 < r) \<and>
           err_limit e = limit g \<and> err_windowMs e = windowMs g"
proof -
  let ?b' = "snd (hits g key ts b)"
  let ?v = "valid_timestamps g now (stored ?b' key)"
  have s0: "stored b key = stored b key @ []" by simp
  have w0: "within_window (windowMs g) ([] @ ts @ [now])"
    using assms(4) by simp
  from hits_keep [OF s0 w0 assms(1)]
  obtain pre where v: "?v = pre @ ts" by auto
  then have full: "limit g \<le> int (length ?v)"
    using assms(2) by simp
  have "ts \<noteq> []" using assms(2,3) by auto
  with v have "?v \<noteq> []" by simp
  then obtain oldest rest where c: "?v = oldest # rest"
    by (auto simp: neq_Nil_conv)
  then have "oldest \<in> set ?v" by simp
  then have "now - windowMs g < oldest"
    by (simp add: valid_timestamps_def)
  then have "0 < ceil_div (oldest + windowMs g - now) 1000"
    by (intro ceil_div_pos) simp
  with full c show ?thesis
    by (simp add: hit_eq)
qed

theorem hit_after_limit_fails_witness:
  "fst (hits demo_gate ''user1'' [5, 6] new_MemoryBackend) = [Inr (), Inr ()] \<and>
   within_window (windowMs demo_gate) ([5, 6] @ [7]) \<and>
   (\<exists>e. fst (hit demo_gate 7 ''user1'' (snd (hits demo_gate ''user1'' [5, 6] new_MemoryBackend))) = Inl e \<and>
           (\<exists>r. err_resetIn e = Num r \<and> 0 < r) \<and>
           err_limit e = 2 \<and> err_windowMs e = 1000)"
proof -
  have h1: "fst (hits demo_gate ''user1'' [5, 6] new_MemoryBackend) = replicate (length [5, 6 :: int]) (Inr ())"
    by (simp add: hit_eq stored_def backend_get_def new_MemoryBackend_def valid_timestamps_def
        backend_set_def numeral_2_eq_2)
  have h2: "int (length [5, 6 :: int]) = limit demo_gate" by simp
  have h3: "0 < limit demo_gate" by simp
  have h4: "within_window (windowMs demo_gate) ([5, 6] @ [7])"
    by (simp add: within_window_def)
  from hit_after_limit_fails [OF h1 h2 h3 h4] h1 h4 show ?thesis
    by (simp add: numeral_2_eq_2)
qed

section \<open>Reading without recording\<close>

text \<open>
  C4. \<^verbatim>\<open>check\<close> returns true exactly when the number of valid timestamps after pruning
  at the current instant is strictly less than \<open>limit\<close>. It writes nothing: the store is
  as before, and the only backend method it called is \<^verbatim>\<open>get\<close>, once.
\<close>

theorem check_under_limit:
  "(fst (check g now key b) \<longleftrightarrow>
      int (length (valid_timestamps g now (stored b key))) < limit g) \<and>
   store (snd (check g now key b)) = store b \<and>
   calls (snd (check g now key b)) = calls b @ [CallGet key]"
  by (simp add: check_eq)

theorem check_under_limit_witness:
  "fst (check demo_gate 1600 ''user1'' demo_backend) = False \<and>
   fst (check demo_gate 1950 ''user1'' demo_backend) = True \<and>
   snd (check demo_gate 1600 ''user1'' demo_backend) =
     \<lparr>store = [(''user1'', [100, 900, 1500]), (''user2'', [200])], calls = [CallGet ''user1'']\<rparr>"
proof -
  have v1: "valid_timestamps demo_gate 1600 (stored demo_backend ''user1'') = [900, 1500]"
    by (simp add: valid_timestamps_def stored_def backend_get_def)
  have v2: "valid_timestamps demo_gate 1950 (stored demo_backend ''user1'') = [1500]"
    by (simp add: valid_timestamps_def stored_def backend_get_def)
  from check_under_limit [of demo_gate 1600 "''user1''" demo_backend]
    check_under_limit [of demo_gate 1950 "''user1''" demo_backend]
  show ?thesis
    unfolding v1 v2 by (cases "snd (check demo_gate 1600 ''user1'' demo_backend)") simp
qed

section \<open>The edge of the window\<close>




section \<open>Time until the window frees a slot\<close>

text \<open>
  C6. \<^verbatim>\<open>resetIn\<close> returns 0 when the key has no valid timestamp after pruning, and
  otherwise \<open>\<lceil>(oldest + windowMs - now) / 1000\<rceil>\<close> clamped below at 0, for the first valid
  timestamp \<open>oldest\<close>; that value is stated where the code computes it without rounding
  (\<open>reset_exact\<close>). The result is never negative, and the call writes nothing: the
  store is as before and only \<^verbatim>\<open>get\<close> was called.
\<close>

theorem resetIn_value:
  "(valid_timestamps g now (stored b key) = [] \<longrightarrow> fst (resetIn g now key b) = 0) \<and>
   (\<forall>oldest rest.
      valid_timestamps g now (stored b key) = oldest # rest \<longrightarrow>
      reset_exact g now oldest \<longrightarrow>
      fst (resetIn g now key b) =
        max 0 \<lceil>real_of_int (oldest + windowMs g - now) / 1000\<rceil>) \<and>
   0 \<le> fst (resetIn g now key b) \<and>
   store (snd (resetIn g now key b)) = store b \<and>
   calls (snd (resetIn g now key b)) = calls b @ [CallGet key]"
  by (simp add: resetIn_eq ceil_div_ceiling split: list.splits)

theorem resetIn_value_witness:
  "reset_exact demo_gate 1600 900 \<and>
   fst (resetIn demo_gate 1600 ''user1'' demo_backend) = 1 \<and>
   fst (resetIn demo_gate 2500 ''user1'' demo_backend) = 0 \<and>
   fst (resetIn demo_gate 1600 ''user3'' demo_backend) = 0 \<and>
   store (snd (resetIn demo_gate 1600 ''user1'' demo_backend)) = store demo_backend"
proof -
  have v1: "valid_timestamps demo_gate 1600 (stored demo_backend ''user1'') = [900, 1500]"
    by (simp add: valid_timestamps_def stored_def backend_get_def)
  have v2: "valid_timestamps demo_gate 2500 (stored demo_backend ''user1'') = []"
    by (simp add: valid_timestamps_def stored_def backend_get_def)
  have v3: "valid_timestamps demo_gate 1600 (stored demo_backend ''user3'') = []"
    by (simp add: valid_timestamps_def stored_def backend_get_def)
  have x: "reset_exact demo_gate 1600 900"
    by (simp add: reset_exact_def safe_integer_def)
  from resetIn_value [of demo_gate 1600 demo_backend "''user1''"]
    resetIn_value [of demo_gate 2500 demo_backend "''user1''"]
    resetIn_value [of demo_gate 1600 demo_backend "''user3''"] x
  show ?thesis
    unfolding v1 v2 v3 by simp
qed

section \<open>The maintenance sweep\<close>

text \<open>
  C7. \<^verbatim>\<open>cleanup\<close> runs over the keys the backend enumerates and prunes each stored
  sequence against the current instant: an empty result deletes the key, a strictly
  shorter one is written back, and otherwise the backend is only read. Afterwards each
  key of the map holds its pruned sequence or, when that is empty, is gone; so exactly
  the keys with an unexpired timestamp remain, and the count of unexpired timestamps of
  every key is unchanged.
\<close>

theorem cleanup_expires:
  "cleanup g now b =
     fold (cleanup_key (now - windowMs g)) (fst (backend_keys b)) (snd (backend_keys b)) \<and>
   cleanup_key (now - windowMs g) key b =
     (if valid_timestamps g now (stored b key) = [] then
        backend_delete key (snd (backend_get key b))
      else if length (valid_timestamps g now (stored b key)) < length (stored b key) then
        backend_set key (valid_timestamps g now (stored b key)) (snd (backend_get key b))
      else snd (backend_get key b)) \<and>
   map_of (store (cleanup g now b)) key =
     (case map_of (store b) key of
        None \<Rightarrow> None
      | Some ts \<Rightarrow>
          if valid_timestamps g now ts = [] then None else Some (valid_timestamps g now ts)) \<and>
   (key \<in> set (fst (backend_keys (cleanup g now b))) \<longleftrightarrow>
      valid_timestamps g now (stored b key) \<noteq> []) \<and>
   stored (cleanup g now b) key = valid_timestamps g now (stored b key) \<and>
   length (valid_timestamps g now (stored (cleanup g now b) key)) =
     length (valid_timestamps g now (stored b key))"
proof -
  have a: "cleanup g now b =
     fold (cleanup_key (now - windowMs g)) (fst (backend_keys b)) (snd (backend_keys b))"
    by (simp add: cleanup_def backend_keys_def)
  have c: "map_of (store (cleanup g now b)) key =
     (case map_of (store b) key of
        None \<Rightarrow> None
      | Some ts \<Rightarrow>
          if valid_timestamps g now ts = [] then None else Some (valid_timestamps g now ts))"
    by (simp add: cleanup_map_of expire_def)
  have f: "length (valid_timestamps g now (stored (cleanup g now b) key)) =
     length (valid_timestamps g now (stored b key))"
    by (simp add: stored_cleanup)
  show ?thesis
    by (intro conjI a c f cleanup_key_eq keys_cleanup stored_cleanup)
qed

theorem cleanup_expires_witness:
  "''user2'' \<notin> set (fst (backend_keys (cleanup demo_gate 1600 demo_backend))) \<and>
   ''user1'' \<in> set (fst (backend_keys (cleanup demo_gate 1600 demo_backend))) \<and>
   stored (cleanup demo_gate 1600 demo_backend) ''user1'' = [900, 1500] \<and>
   map_of (store (cleanup demo_gate 1600 demo_backend)) ''user2'' = None"
proof -
  have v1: "valid_timestamps demo_gate 1600 (stored demo_backend ''user1'') = [900, 1500]"
    by (simp add: valid_timestamps_def stored_def backend_get_def)
  have v2: "valid_timestamps demo_gate 1600 (stored demo_backend ''user2'') = []"
    by (simp add: valid_timestamps_def stored_def backend_get_def)
  have m2: "map_of (store demo_backend) ''user2'' = Some [200]"
    by simp
  have e2: "valid_timestamps demo_gate 1600 [200] = []"
    by (simp add: valid_timestamps_def)
  from cleanup_expires [of demo_gate 1600 demo_backend "''user1''", THEN conjunct2]
    cleanup_expires [of demo_gate 1600 demo_backend "''user2''", THEN conjunct2]
  show ?thesis
    unfolding v1 v2 m2 by (simp add: e2)
qed

section \<open>Which operations write\<close>

text \<open>
  C8. \<^verbatim>\<open>check\<close>, \<^verbatim>\<open>remaining\<close> and \<^verbatim>\<open>resetIn\<close> leave the store as it was and call
  only \<^verbatim>\<open>get\<close> on the backend, never \<^verbatim>\<open>set\<close> or \<^verbatim>\<open>delete\<close>. A \<^verbatim>\<open>hit\<close> that fails
  does the same; a \<^verbatim>\<open>hit\<close> that succeeds calls \<^verbatim>\<open>get\<close> and then \<^verbatim>\<open>set\<close> with the
  pruned sequence followed by the current instant.
\<close>

theorem reads_do_not_write:
  "store (snd (check g now key b)) = store b \<and>
   calls (snd (check g now key b)) = calls b @ [CallGet key] \<and>
   store (snd (remaining g now key b)) = store b \<and>
   calls (snd (remaining g now key b)) = calls b @ [CallGet key] \<and>
   store (snd (resetIn g now key b)) = store b \<and>
   calls (snd (resetIn g now key b)) = calls b @ [CallGet key] \<and>
   (\<forall>e. fst (hit g now key b) = Inl e \<longrightarrow>
      store (snd (hit g now key b)) = store b \<and>
      calls (snd (hit g now key b)) = calls b @ [CallGet key]) \<and>
   (\<forall>u. fst (hit g now key b) = Inr u \<longrightarrow>
      store (snd (hit g now key b)) =
        AList.update key (valid_timestamps g now (stored b key) @ [now]) (store b) \<and>
      calls (snd (hit g now key b)) =
        calls b @ [CallGet key, CallSet key (valid_timestamps g now (stored b key) @ [now])])"
  by (simp add: check_eq remaining_eq resetIn_eq hit_eq backend_set_def)

theorem reads_do_not_write_witness:
  "(\<exists>e. fst (hit demo_gate 1600 ''user1'' demo_backend) = Inl e) \<and>
   snd (hit demo_gate 1600 ''user1'' demo_backend) =
     \<lparr>store = [(''user1'', [100, 900, 1500]), (''user2'', [200])], calls = [CallGet ''user1'']\<rparr> \<and>
   fst (hit demo_gate 1950 ''user1'' demo_backend) = Inr () \<and>
   snd (hit demo_gate 1950 ''user1'' demo_backend) =
     \<lparr>store = [(''user1'', [1500, 1950]), (''user2'', [200])],
      calls = [CallGet ''user1'', CallSet ''user1'' [1500, 1950]]\<rparr>"
proof -
  have v1: "valid_timestamps demo_gate 1600 (stored demo_backend ''user1'') = [900, 1500]"
    by (simp add: valid_timestamps_def stored_def backend_get_def)
  have v2: "valid_timestamps demo_gate 1950 (stored demo_backend ''user1'') = [1500]"
    by (simp add: valid_timestamps_def stored_def backend_get_def)
  have f1: "\<exists>e. fst (hit demo_gate 1600 ''user1'' demo_backend) = Inl e"
    by (simp add: hit_eq v1)
  have f2: "fst (hit demo_gate 1950 ''user1'' demo_backend) = Inr ()"
    by (simp add: hit_eq v2)
  from reads_do_not_write [of demo_gate 1600 "''user1''" demo_backend]
    reads_do_not_write [of demo_gate 1950 "''user1''" demo_backend] f1 f2
  show ?thesis
    unfolding v1 v2
    by (cases "snd (hit demo_gate 1600 ''user1'' demo_backend)";
        cases "snd (hit demo_gate 1950 ''user1'' demo_backend)") auto
qed

section \<open>Independence of keys\<close>

text \<open>
  C9. For distinct keys \<open>k1\<close> and \<open>k2\<close>, any sequence of calls of \<^verbatim>\<open>hit\<close> on \<open>k1\<close>,
  whether they succeed or fail, leaves what the backend holds for \<open>k2\<close> unchanged, and
  with it the results of \<^verbatim>\<open>check\<close>, \<^verbatim>\<open>remaining\<close> and \<^verbatim>\<open>resetIn\<close> and the outcome of
  \<^verbatim>\<open>hit\<close> for \<open>k2\<close>.
\<close>

theorem keys_independent:
  assumes "k1 \<noteq> k2"
  shows "map_of (store (snd (hits g k1 ts b))) k2 = map_of (store b) k2 \<and>
         fst (check g now k2 (snd (hits g k1 ts b))) = fst (check g now k2 b) \<and>
         fst (remaining g now k2 (snd (hits g k1 ts b))) = fst (remaining g now k2 b) \<and>
         fst (resetIn g now k2 (snd (hits g k1 ts b))) = fst (resetIn g now k2 b) \<and>
         fst (hit g now k2 (snd (hits g k1 ts b))) = fst (hit g now k2 b)"
proof -
  have m: "map_of (store (snd (hits g k1 ts b))) k2 = map_of (store b) k2"
    using assms by (intro hits_other_key) simp
  then have "stored (snd (hits g k1 ts b)) k2 = stored b k2"
    by (simp add: stored_map_of)
  with m show ?thesis
    by (simp add: check_eq remaining_eq resetIn_eq hit_eq)
qed

theorem keys_independent_witness:
  "fst (hits demo_gate ''user1'' [1600, 1950, 1960] demo_backend) =
     [Inl (failure demo_gate 1600 [900, 1500]), Inr (), Inl (failure demo_gate 1960 [1500, 1950])] \<and>
   map_of (store (snd (hits demo_gate ''user1'' [1600, 1950, 1960] demo_backend))) ''user2'' = Some [200] \<and>
   fst (remaining demo_gate 2000 ''user2'' (snd (hits demo_gate ''user1'' [1600, 1950, 1960] demo_backend))) = 2"
proof -
  have h: "fst (hits demo_gate ''user1'' [1600, 1950, 1960] demo_backend) =
     [Inl (failure demo_gate 1600 [900, 1500]), Inr (), Inl (failure demo_gate 1960 [1500, 1950])]"
    by (simp add: hit_eq stored_def backend_get_def valid_timestamps_def backend_set_def)
  have n: "''user1'' \<noteq> ''user2''" by simp
  have r: "fst (remaining demo_gate 2000 ''user2'' demo_backend) = 2"
    by (simp add: remaining_eq stored_def backend_get_def valid_timestamps_def)
  from keys_independent [OF n, of demo_gate "[1600, 1950, 1960]" demo_backend 2000] h r
  show ?thesis by simp
qed


section \<open>A bound on what is stored\<close>

text \<open>
  C10. When no stored sequence is longer than \<open>limit\<close>, that is still so after every
  operation of the gate, and it is so for a new backend. A successful \<^verbatim>\<open>hit\<close> stores
  the pruned sequence, of fewer than \<open>limit\<close> entries, followed by the current instant;
  \<^verbatim>\<open>cleanup\<close> never lengthens a stored sequence.
\<close>

theorem stored_length_within_limit:
  assumes "within_limit g b"
  shows "within_limit g new_MemoryBackend \<and>
         within_limit g (snd (check g now key b)) \<and>
         within_limit g (snd (hit g now key b)) \<and>
         within_limit g (snd (resetIn g now key b)) \<and>
         within_limit g (snd (remaining g now key b)) \<and>
         within_limit g (cleanup g now b) \<and>
         (\<forall>u. fst (hit g now key b) = Inr u \<longrightarrow>
            stored (snd (hit g now key b)) key = valid_timestamps g now (stored b key) @ [now] \<and>
            int (length (valid_timestamps g now (stored b key))) < limit g) \<and>
         length (stored (cleanup g now b) key) \<le> length (stored b key)"
proof -
  have r: "within_limit g (snd (check g now key b)) \<and>
         within_limit g (snd (resetIn g now key b)) \<and>
         within_limit g (snd (remaining g now key b))"
    using assms by (simp add: check_eq resetIn_eq remaining_eq)
  have h: "\<forall>u. fst (hit g now key b) = Inr u \<longrightarrow>
            stored (snd (hit g now key b)) key = valid_timestamps g now (stored b key) @ [now] \<and>
            int (length (valid_timestamps g now (stored b key))) < limit g"
    by (simp add: hit_eq stored_backend_set)
  have c: "length (stored (cleanup g now b) key) \<le> length (stored b key)"
    by (simp add: stored_cleanup length_valid_timestamps_le)
  have n: "within_limit g new_MemoryBackend"
    by (simp add: within_limit_def new_MemoryBackend_def)
  from n r h c within_limit_hit [OF assms] within_limit_cleanup [OF assms]
  show ?thesis by blast
qed

theorem stored_length_within_limit_witness:
  "within_limit demo_gate \<lparr>store = [(''user1'', [900, 1500]), (''user2'', [200])], calls = []\<rparr> \<and>
   within_limit demo_gate
     (snd (hit demo_gate 1950 ''user1''
             \<lparr>store = [(''user1'', [900, 1500]), (''user2'', [200])], calls = []\<rparr>)) \<and>
   within_limit demo_gate
     (cleanup demo_gate 1950 \<lparr>store = [(''user1'', [900, 1500]), (''user2'', [200])], calls = []\<rparr>)"
proof -
  have w: "within_limit demo_gate
      \<lparr>store = [(''user1'', [900, 1500]), (''user2'', [200])], calls = []\<rparr>"
    by (simp add: within_limit_def)
  from stored_length_within_limit [OF w, of 1950 "''user1''"] w
  show ?thesis by simp
qed

end
